theory Spec2Isabelle
  imports Complex_Main
begin

section \<open>Numbers\<close>

text \<open>
  The script computes on numpy float64 values. A float64 value is a finite real, an
  infinity or NaN; the values stored in a history or in the table of the wall velocity
  are finite and are reals here. numpy returns an infinity or NaN for a zero divisor
  (with a warning) instead of raising, so these are values of their own.
\<close>

datatype fl = Fin real | PInf | NInf | NaN

text \<open>
  \<open>a / b\<close> without rounding, with the results IEEE division gives for a zero divisor.
  Every divisor in the script is a difference of two finite values, which is \<open>+0.0\<close>
  when it is zero.
\<close>

definition fdiv :: "real \<Rightarrow> real \<Rightarrow> fl" where
  "fdiv a b =
     (if b \<noteq> 0 then Fin (a / b)
      else if 0 < a then PInf
      else if a < 0 then NInf
      else NaN)"

text \<open>\<open>x > y\<close> on float64 values: every comparison with NaN is false.\<close>

fun fl_gt :: "fl \<Rightarrow> fl \<Rightarrow> bool" where
  "fl_gt (Fin a) (Fin b) = (b < a)"
| "fl_gt (Fin a) NInf = True"
| "fl_gt PInf (Fin b) = True"
| "fl_gt PInf NInf = True"
| "fl_gt _ _ = False"

text \<open>
  Where \<open>get_IDT\<close> compares slopes with each other, rounding decides ties, so the
  float64 arithmetic of the slope is a parameter of the model: \<open>sub64\<close> is the
  subtraction of two stored values, with its result in whatever form the machine holds
  it, and \<open>div64\<close> is the division of two such results, a float64 value. What is
  proved of \<open>get_IDT\<close> is proved for every such pair of operations, and so for the
  rounding ones of the machine.
\<close>

record 'd float_ops =
  sub64 :: "real \<Rightarrow> real \<Rightarrow> 'd"
  div64 :: "'d \<Rightarrow> 'd \<Rightarrow> fl"

text \<open>
  The arithmetic without rounding. IEEE operations return the exact result whenever it
  is a float64 value, so on the small whole numbers of the examples below this is what
  the machine computes.
\<close>

definition exact_ops :: "real float_ops" where
  "exact_ops = \<lparr>sub64 = (\<lambda>a b. a - b), div64 = fdiv\<rparr>"

section \<open>Time histories\<close>

text \<open>
  A \<open>SolutionArray\<close> with the extra column \<open>t\<close>: one row per appended state, each row
  holding the time, the temperature, the pressure and the mass fractions, together with
  the species names of the gas it was created from.
\<close>

record state_row =
  row_t :: real
  row_T :: real
  row_P :: real
  row_Y :: "string \<Rightarrow> real"

record solution_array =
  species_names :: "string list"
  rows :: "state_row list"

definition t_col :: "solution_array \<Rightarrow> real list" where
  "t_col h = map row_t (rows h)"

definition T_col :: "solution_array \<Rightarrow> real list" where
  "T_col h = map row_T (rows h)"

definition P_col :: "solution_array \<Rightarrow> real list" where
  "P_col h = map row_P (rows h)"

datatype error =
    UnknownSpecies
  | EmptyArgmax
  | ZeroModulus

text \<open>
  \<open>solution_results(signal).Y\<close>: the mass fraction column of one species; the backend
  raises for a name that is not a species of the gas.
\<close>

definition Y_col :: "solution_array \<Rightarrow> string \<Rightarrow> error + real list" where
  "Y_col h name =
     (if name \<in> set (species_names h) then Inr (map (\<lambda>r. row_Y r name) (rows h))
      else Inl UnknownSpecies)"

text \<open>
  numpy's \<open>argmax\<close>: the index of the first occurrence of the largest element; it raises
  on an empty array. \<open>argmax_from i best j xs\<close> scans \<open>xs\<close>, whose head has index \<open>j\<close>,
  with \<open>best\<close> at index \<open>i\<close> the largest element so far.
\<close>

fun argmax_from :: "nat \<Rightarrow> real \<Rightarrow> nat \<Rightarrow> real list \<Rightarrow> nat" where
  "argmax_from i best j [] = i"
| "argmax_from i best j (x # xs) =
     (if best < x then argmax_from j x (Suc j) xs else argmax_from i best (Suc j) xs)"

definition argmax :: "real list \<Rightarrow> error + nat" where
  "argmax xs = (case xs of [] \<Rightarrow> Inl EmptyArgmax | x # ys \<Rightarrow> Inr (argmax_from 0 x 1 ys))"

section \<open>The ignition delay extractor\<close>

text \<open>\<open>str.upper\<close> on the 8-bit characters of a signal name.\<close>

definition upper_char :: "char \<Rightarrow> char" where
  "upper_char c =
     (if 97 \<le> (of_char c :: nat) \<and> (of_char c :: nat) \<le> 122
      then char_of ((of_char c :: nat) - 32) else c)"

definition upper :: "string \<Rightarrow> string" where
  "upper s = map upper_char s"

text \<open>The slope computed in the loop body of \<open>get_IDT\<close> at index \<open>i\<close>.\<close>

definition temp_scope :: "'d float_ops \<Rightarrow> real list \<Rightarrow> real list \<Rightarrow> nat \<Rightarrow> fl" where
  "temp_scope ops y t i =
     div64 ops (sub64 ops (y ! (i + 1)) (y ! i)) (sub64 ops (t ! (i + 1)) (t ! i))"

text \<open>One iteration of the loop: the state is \<open>(scope_max, tau_idt)\<close>.\<close>

definition idt_step :: "'d float_ops \<Rightarrow> real list \<Rightarrow> real list \<Rightarrow> fl \<times> real \<Rightarrow> nat \<Rightarrow> fl \<times> real" where
  "idt_step ops y t s i =
     (if fl_gt (temp_scope ops y t i) (fst s) then (temp_scope ops y t i, t ! i) else s)"

text \<open>
  \<open>for i in range(len(t) - 1)\<close>, from \<open>scope_max = 0\<close> and \<open>tau_idt = 0\<close>. For an empty
  history Python's \<open>range(-1)\<close> is empty, as is \<open>[0..<0 - 1]\<close> on naturals. The columns
  of one array have the same length, so every index the loop uses is in range.
\<close>

definition idt_loop :: "'d float_ops \<Rightarrow> real list \<Rightarrow> real list \<Rightarrow> fl \<times> real" where
  "idt_loop ops y t = foldl (idt_step ops y t) (Fin 0, 0) [0..<length t - 1]"

definition get_IDT :: "'d float_ops \<Rightarrow> solution_array \<Rightarrow> string \<Rightarrow> error + real" where
  "get_IDT ops solution_results signal =
     (if upper signal \<notin> set [''T'', ''P''] then
        (case Y_col solution_results signal of
           Inl e \<Rightarrow> Inl e
         | Inr ys \<Rightarrow>
             (case argmax ys of
                Inl e \<Rightarrow> Inl e
              | Inr k \<Rightarrow> Inr (t_col solution_results ! k)))
      else
        (let y = (if upper signal = ''T'' then T_col solution_results
                  else P_col solution_results)
         in Inr (snd (idt_loop ops y (t_col solution_results)))))"

text \<open>The column the slope branch of \<open>get_IDT\<close> reads, and the slope at index \<open>i\<close>.\<close>

definition signal_col :: "solution_array \<Rightarrow> string \<Rightarrow> real list" where
  "signal_col h signal = (if upper signal = ''T'' then T_col h else P_col h)"

abbreviation slope_at :: "'d float_ops \<Rightarrow> solution_array \<Rightarrow> string \<Rightarrow> nat \<Rightarrow> fl" where
  "slope_at ops h signal i \<equiv> temp_scope ops (signal_col h signal) (t_col h) i"

section \<open>The wall velocity\<close>

text \<open>The two rows of the table \<open>V_t\<close>: breakpoint times and normalised volumes.\<close>

definition V_t0 :: "real list" where
  "V_t0 =
     [0, 0.0002, 0.0004, 0.0006, 0.0008, 0.001, 0.0012, 0.0014, 0.0016, 0.0018, 0.002, 0.0022,
      0.0024, 0.0026, 0.0028, 0.003, 0.0032, 0.0034, 0.0036, 0.0038, 0.004, 0.0042, 0.0044, 0.0046,
      0.0048,
      0.005, 0.0052, 0.0054, 0.0056, 0.0058, 0.006, 0.0062, 0.0064, 0.0066, 0.0068, 0.007, 0.0072,
      0.0074,
      0.0076, 0.0078, 0.008, 0.0082, 0.0084, 0.0086, 0.0088, 0.009]"

definition V_t1 :: "real list" where
  "V_t1 =
     [1, 0.990523087, 0.981281978, 0.972267286, 0.963470131, 0.95488211, 0.946495261, 0.938302037,
      0.930295277, 0.922468181, 0.91481429, 0.907327458, 0.900001842, 0.892831873, 0.885812248,
      0.878937911,
      0.872204038, 0.865606022, 0.859139466, 0.852800165, 0.846584099, 0.840487423, 0.834506453,
      0.828637663,
      0.822877673, 0.817223244, 0.811671266, 0.806218758, 0.800862855, 0.795600807, 0.790429969,
      0.7853478,
      0.780351855, 0.775439782, 0.770609317, 0.765858279, 0.761184567, 0.756586156, 0.752061095,
      0.747607501,
      0.743223558, 0.738907513, 0.734657673, 0.730472404, 0.726350127, 0.722289314]"

text \<open>The value returned inside the loop of \<open>v\<close> at index \<open>i\<close>.\<close>

definition v_deriv :: "nat \<Rightarrow> fl" where
  "v_deriv i = fdiv (V_t1 ! (i + 1) - V_t1 ! i) (V_t0 ! (i + 1) - V_t0 ! i)"

text \<open>
  The value returned after the loop; the negative indices \<open>-1\<close> and \<open>-2\<close> name the last
  and the last but one entry.
\<close>

definition v_last :: fl where
  "v_last =
     fdiv (V_t1 ! (length V_t1 - 1) - V_t1 ! (length V_t1 - 2))
          (V_t0 ! (length V_t0 - 1) - V_t0 ! (length V_t0 - 2))"

text \<open>
  \<open>v\<close>: the loop returns at the first index whose interval holds the query time.
  Both rows have 46 entries, so every index used is in range.
\<close>

definition v :: "real \<Rightarrow> fl" where
  "v t =
     (case find (\<lambda>i. V_t0 ! i \<le> t \<and> t < V_t0 ! (i + 1)) [0..<length V_t0 - 1] of
        Some i \<Rightarrow> v_deriv i
      | None \<Rightarrow> v_last)"

section \<open>Gas objects and reactors\<close>

text \<open>
  Gas objects live in a store and are passed by reference. Of a gas object only the
  species names and the composition are modelled, the composition as the dictionary
  last assigned to it; temperature and pressure stay inside the backend.
\<close>

type_synonym addr = nat

record gas_state =
  gas_species :: "string list"
  gas_X :: "(string \<times> real) list"

type_synonym store = "addr \<Rightarrow> gas_state"

text \<open>
  A reactor keeps the reference to its contents and the state the gas object had when
  the reactor was built.
\<close>

record reactor =
  contents :: addr
  init_state :: gas_state
  volume :: real

definition Reactor :: "store \<Rightarrow> addr \<Rightarrow> reactor" where
  "Reactor \<sigma> gas = \<lparr>contents = gas, init_state = \<sigma> gas, volume = 1\<rparr>"

text \<open>
  The assignment \<open>gas.X = x\<close>: the backend raises for a name that is not a species of
  the gas and leaves the gas object as it was.
\<close>

definition set_X :: "store \<Rightarrow> addr \<Rightarrow> (string \<times> real) list \<Rightarrow> error + store" where
  "set_X \<sigma> gas x =
     (if list_all (\<lambda>name. name \<in> set (gas_species (\<sigma> gas))) (map fst x)
      then Inr (\<sigma>(gas := (\<sigma> gas)\<lparr>gas_X := x\<rparr>))
      else Inl UnknownSpecies)"

text \<open>
  The reactor network backend: building a network from reactors and wall velocities,
  one solver step (the new time and the new network), and the temperature, pressure and
  mass fractions of the i-th reactor.
\<close>

record 'n backend =
  ReactorNet :: "reactor list \<Rightarrow> (real \<Rightarrow> fl) list \<Rightarrow> 'n"
  net_step :: "'n \<Rightarrow> real \<times> 'n"
  thermo_state :: "'n \<Rightarrow> nat \<Rightarrow> real \<times> real \<times> (string \<Rightarrow> real)"

section \<open>The two runners\<close>

text \<open>\<open>timeHistory.append(r.thermo.state, t=t)\<close>: the row appended.\<close>

definition mk_row :: "real \<times> real \<times> (string \<Rightarrow> real) \<Rightarrow> real \<Rightarrow> state_row" where
  "mk_row s t = \<lparr>row_t = t, row_T = fst s, row_P = fst (snd s), row_Y = snd (snd s)\<rparr>"

text \<open>
  The \<open>while t < end_time\<close> loop, the same in both runners. The state is the network,
  \<open>t\<close>, \<open>counter\<close> and the history; \<open>counter % print_step\<close> raises for a zero
  \<open>print_step\<close>. The loop returns the time and the history at its exit.
\<close>

partial_function (option) advance ::
  "('n \<Rightarrow> real \<times> 'n) \<Rightarrow> ('n \<Rightarrow> real \<times> real \<times> (string \<Rightarrow> real)) \<Rightarrow> real \<Rightarrow> int \<Rightarrow>
   'n \<Rightarrow> real \<Rightarrow> int \<Rightarrow> state_row list \<Rightarrow> (error + real \<times> state_row list) option"
where
  "advance stp obs end_time print_step net t counter hist =
     (if t < end_time then
        (case stp net of (t', net') \<Rightarrow>
           if print_step = 0 then Some (Inl ZeroModulus)
           else advance stp obs end_time print_step net' t' (counter + 1)
                  (if counter mod print_step = 0 then hist @ [mk_row (obs net') t'] else hist))
      else Some (Inr (t, hist)))"

text \<open>\<open>get_IDT(timeHistory) * 1000\<close> on the outcome of the loop.\<close>

definition idt_ms ::
  "'d float_ops \<Rightarrow> string list \<Rightarrow> (error + real \<times> state_row list) option
   \<Rightarrow> (error + real) option" where
  "idt_ms ops names res =
     (case res of
        None \<Rightarrow> None
      | Some (Inl e) \<Rightarrow> Some (Inl e)
      | Some (Inr (t, hist)) \<Rightarrow>
          (case get_IDT ops \<lparr>species_names = names, rows = hist\<rparr> ''T'' of
             Inl e \<Rightarrow> Some (Inl e)
           | Inr tau \<Rightarrow> Some (Inr (tau * 1000))))"

definition run_cal_ideal ::
  "'d float_ops \<Rightarrow> 'n backend \<Rightarrow> store \<Rightarrow> addr \<Rightarrow> real \<Rightarrow> int \<Rightarrow> (error + real) option" where
  "run_cal_ideal ops B \<sigma> gas end_time print_step =
     (let r = Reactor \<sigma> gas;
          reactorNetwork = ReactorNet B [r] []
      in idt_ms ops (gas_species (\<sigma> gas))
           (advance (net_step B) (\<lambda>n. thermo_state B n 0) end_time print_step
              reactorNetwork 0 1 []))"

text \<open>
  \<open>run_cal_real\<close>. It returns the store next to its result, because it assigns to the
  gas object of its caller. The first reactor is built, the alias \<open>gas2 = gas\<close> is
  taken, \<open>gas2.X\<close> is assigned, and the second reactor is built on \<open>gas2\<close>; when the
  assignment raises, nothing has been changed.
\<close>

definition run_cal_real ::
  "'d float_ops \<Rightarrow> 'n backend \<Rightarrow> store \<Rightarrow> addr \<Rightarrow> real \<Rightarrow> int
   \<Rightarrow> store \<times> (error + real) option" where
  "run_cal_real ops B \<sigma> gas end_time print_step =
     (let r1 = (Reactor \<sigma> gas)\<lparr>volume := 1\<rparr>;
          gas2 = gas
      in case set_X \<sigma> gas2 [(''H2'', 1)] of
           Inl e \<Rightarrow> (\<sigma>, Some (Inl e))
         | Inr \<sigma>' \<Rightarrow>
             (let r2 = Reactor \<sigma>' gas2;
                  reactorNetwork = ReactorNet B [r1, r2] [v]
              in (\<sigma>',
                  idt_ms ops (gas_species (\<sigma>' gas))
                    (advance (net_step B) (\<lambda>n. thermo_state B n 0) end_time print_step
                       reactorNetwork 0 1 []))))"

text \<open>
  The solver seen from outside: the time and the network after \<open>k\<close> steps, starting
  from a time and a network.
\<close>

fun run_steps :: "('n \<Rightarrow> real \<times> 'n) \<Rightarrow> real \<times> 'n \<Rightarrow> nat \<Rightarrow> real \<times> 'n" where
  "run_steps stp s 0 = s"
| "run_steps stp s (Suc k) = run_steps stp (stp (snd s)) k"

definition sim_time :: "('n \<Rightarrow> real \<times> 'n) \<Rightarrow> 'n \<Rightarrow> nat \<Rightarrow> real" where
  "sim_time stp net k = fst (run_steps stp (0, net) k)"

text \<open>
  For examples: a solver whose state counts the steps and whose k-th step returns the
  time k, a backend around it, and two stores, one of a gas with the species \<open>H2\<close> and
  one of a gas without it.
\<close>

definition tick :: "nat \<Rightarrow> real \<times> nat" where
  "tick n = (real (Suc n), Suc n)"

definition tick_backend :: "nat backend" where
  "tick_backend =
     \<lparr>ReactorNet = (\<lambda>rs ws. 0), net_step = tick, thermo_state = (\<lambda>n i. (300, 1, \<lambda>_. 0))\<rparr>"

definition h2_store :: store where
  "h2_store = (\<lambda>a. \<lparr>gas_species = [''H2'', ''O2'', ''N2''], gas_X = [(''O2'', 1)]\<rparr>)"

definition n2_store :: store where
  "n2_store = (\<lambda>a. \<lparr>gas_species = [''N2''], gas_X = [(''N2'', 1)]\<rparr>)"

section \<open>Properties of the ignition delay extractor\<close>

lemma fl_gt_irrefl: "\<not> fl_gt a a"
  by (cases a) simp_all

lemma fl_gt_trans: "fl_gt a b \<Longrightarrow> fl_gt b c \<Longrightarrow> fl_gt a c"
  by (cases a; cases b; cases c) simp_all

lemma fl_gt_below: "\<not> fl_gt a c \<Longrightarrow> fl_gt b c \<Longrightarrow> \<not> fl_gt a b"
  by (cases a; cases b; cases c) simp_all

lemma fl_gt_total: "fl_gt a c \<Longrightarrow> fl_gt b c \<Longrightarrow> fl_gt a b \<or> fl_gt b a \<or> a = b"
  by (cases a; cases b; cases c) auto

lemma idt_fold_none:
  "\<forall>i<n. \<not> fl_gt (temp_scope ops y t i) (Fin 0) \<Longrightarrow>
   foldl (idt_step ops y t) (Fin 0, 0) [0..<n] = (Fin 0, 0)"
  by (induction n) (simp_all add: idt_step_def)

lemma idt_fold_some:
  "\<exists>i<n. fl_gt (temp_scope ops y t i) (Fin 0) \<Longrightarrow>
   \<exists>k<n. foldl (idt_step ops y t) (Fin 0, 0) [0..<n] = (temp_scope ops y t k, t ! k)
        \<and> fl_gt (temp_scope ops y t k) (Fin 0)
        \<and> (\<forall>j<n. \<not> fl_gt (temp_scope ops y t j) (temp_scope ops y t k))
        \<and> (\<forall>j<k. temp_scope ops y t j \<noteq> temp_scope ops y t k)"
proof (induction n)
  case 0
  then show ?case by simp
next
  case (Suc n)
  let ?s = "temp_scope ops y t"
  let ?f = "\<lambda>m. foldl (idt_step ops y t) (Fin 0, 0) [0..<m]"
  have step: "?f (Suc n) = idt_step ops y t (?f n) n" by simp
  show ?case
  proof (cases "\<exists>i<n. fl_gt (?s i) (Fin 0)")
    case False
    then have none: "\<forall>i<n. \<not> fl_gt (?s i) (Fin 0)" by blast
    then have st: "?f n = (Fin 0, 0)" by (rule idt_fold_none)
    from Suc.prems none have pos: "fl_gt (?s n) (Fin 0)"
      using less_Suc_eq by auto
    have 1: "?f (Suc n) = (?s n, t ! n)"
      unfolding step st using pos by (simp add: idt_step_def)
    have 2: "\<forall>j<Suc n. \<not> fl_gt (?s j) (?s n)"
      using none pos fl_gt_below fl_gt_irrefl less_Suc_eq by metis
    have 3: "\<forall>j<n. ?s j \<noteq> ?s n"
      using none pos by metis
    from 1 2 3 pos show ?thesis by blast
  next
    case True
    from Suc.IH [OF True] obtain k where k: "k < n"
      and st: "?f n = (?s k, t ! k)"
      and pos: "fl_gt (?s k) (Fin 0)"
      and mx: "\<forall>j<n. \<not> fl_gt (?s j) (?s k)"
      and fst: "\<forall>j<k. ?s j \<noteq> ?s k" by blast
    show ?thesis
    proof (cases "fl_gt (?s n) (?s k)")
      case gt: True
      have 1: "?f (Suc n) = (?s n, t ! n)"
        unfolding step st using gt by (simp add: idt_step_def)
      have 2: "\<forall>j<Suc n. \<not> fl_gt (?s j) (?s n)"
        using mx gt fl_gt_below fl_gt_irrefl less_Suc_eq by metis
      have 3: "\<forall>j<n. ?s j \<noteq> ?s n"
        using mx gt by metis
      have 4: "fl_gt (?s n) (Fin 0)" using gt pos by (rule fl_gt_trans)
      from 1 2 3 4 show ?thesis by blast
    next
      case ngt: False
      have 1: "?f (Suc n) = (?s k, t ! k)"
        unfolding step st using ngt by (simp add: idt_step_def)
      have 2: "\<forall>j<Suc n. \<not> fl_gt (?s j) (?s k)"
        using mx ngt less_Suc_eq by metis
      from 1 2 fst pos k show ?thesis using less_Suc_eq by blast
    qed
  qed
qed

lemma get_IDT_TP:
  "upper signal \<in> {''T'', ''P''} \<Longrightarrow>
   get_IDT ops h signal = Inr (snd (idt_loop ops (signal_col h signal) (t_col h)))"
  by (auto simp add: get_IDT_def signal_col_def Let_def)


lemma idt_loop_none:
  "\<forall>i<length t - 1. \<not> fl_gt (temp_scope ops y t i) (Fin 0) \<Longrightarrow> idt_loop ops y t = (Fin 0, 0)"
  unfolding idt_loop_def by (rule idt_fold_none)

lemma idt_loop_some:
  "\<exists>i<length t - 1. fl_gt (temp_scope ops y t i) (Fin 0) \<Longrightarrow>
   \<exists>k<length t - 1. idt_loop ops y t = (temp_scope ops y t k, t ! k)
        \<and> fl_gt (temp_scope ops y t k) (Fin 0)
        \<and> (\<forall>j<length t - 1. \<not> fl_gt (temp_scope ops y t j) (temp_scope ops y t k))
        \<and> (\<forall>j<k. temp_scope ops y t j \<noteq> temp_scope ops y t k)"
  unfolding idt_loop_def by (rule idt_fold_some)

lemma t_col_nth: "k < length (rows h) \<Longrightarrow> t_col h ! k = row_t (rows h ! k)"
  by (simp add: t_col_def)

lemma length_t_col: "length (t_col h) = length (rows h)"
  by (simp add: t_col_def)

lemma upper_T: "upper ''T'' = ''T''"
  by (simp add: upper_def upper_char_def)

lemma upper_p: "upper ''p'' = ''P''"
  by code_simp

lemma upper_OH: "upper ''OH'' = ''OH''"
  by (simp add: upper_def upper_char_def)

text \<open>
  C1, amended. Let the signal be \<open>T\<close> or \<open>P\<close> up to case, and let some forward slope
  of the history, as the machine computes it, be positive. Then \<open>get_IDT\<close> returns the
  time of the sample at an index \<open>k\<close> whose slope is positive, is exceeded by no slope
  and is equalled at no earlier index: the first index of the largest slope, and the
  only index of this kind. In particular, when all computed slopes are equal, as on a
  linear ramp whose slopes round to one value, the time of the first sample is
  returned. When no slope is positive the result is 0 instead: on the falling signal of
  the last of the three theorems the only slope is \<open>- 2\<close>, and the result is not the
  time of the first sample.
\<close>

theorem get_IDT_max_slope:
  "upper signal \<in> {''T'', ''P''} \<Longrightarrow>
   \<exists>i<length (rows h) - 1. fl_gt (slope_at ops h signal i) (Fin 0) \<Longrightarrow>
   (\<exists>k<length (rows h) - 1.
       get_IDT ops h signal = Inr (row_t (rows h ! k))
     \<and> fl_gt (slope_at ops h signal k) (Fin 0)
     \<and> (\<forall>j<length (rows h) - 1. \<not> fl_gt (slope_at ops h signal j) (slope_at ops h signal k))
     \<and> (\<forall>j<k. slope_at ops h signal j \<noteq> slope_at ops h signal k)
     \<and> (\<forall>k'<length (rows h) - 1.
           fl_gt (slope_at ops h signal k') (Fin 0)
         \<and> (\<forall>j<length (rows h) - 1.
               \<not> fl_gt (slope_at ops h signal j) (slope_at ops h signal k'))
         \<and> (\<forall>j<k'. slope_at ops h signal j \<noteq> slope_at ops h signal k')
         \<longrightarrow> k' = k))
   \<and> ((\<forall>j<length (rows h) - 1. slope_at ops h signal j = slope_at ops h signal 0)
        \<longrightarrow> get_IDT ops h signal = Inr (row_t (rows h ! 0)))"
proof -
  assume sig: "upper signal \<in> {''T'', ''P''}"
    and ex: "\<exists>i<length (rows h) - 1. fl_gt (slope_at ops h signal i) (Fin 0)"
  let ?y = "signal_col h signal" and ?t = "t_col h"
  let ?n = "length (rows h) - 1"
  let ?s = "slope_at ops h signal"
  from ex have "\<exists>i<length ?t - 1. fl_gt (temp_scope ops ?y ?t i) (Fin 0)"
    by (simp add: length_t_col)
  from idt_loop_some [OF this] obtain k where k: "k < ?n"
    and st: "idt_loop ops ?y ?t = (temp_scope ops ?y ?t k, ?t ! k)"
    and pos: "fl_gt (?s k) (Fin 0)"
    and mx: "\<forall>j<?n. \<not> fl_gt (?s j) (?s k)"
    and first: "\<forall>j<k. ?s j \<noteq> ?s k"
    by (auto simp add: length_t_col)
  have res: "get_IDT ops h signal = Inr (row_t (rows h ! k))"
    using get_IDT_TP [OF sig, of ops h] st k by (simp add: t_col_nth)
  have only: "k' = k"
    if k': "k' < ?n" and pos': "fl_gt (?s k') (Fin 0)"
      and mx': "\<forall>j<?n. \<not> fl_gt (?s j) (?s k')" and first': "\<forall>j<k'. ?s j \<noteq> ?s k'"
    for k'
  proof -
    from mx k' have a: "\<not> fl_gt (?s k') (?s k)" by blast
    from mx' k have b: "\<not> fl_gt (?s k) (?s k')" by blast
    from fl_gt_total [OF pos' pos] a b have eq: "?s k' = ?s k" by blast
    show ?thesis
    proof (rule ccontr)
      assume "k' \<noteq> k"
      then consider "k' < k" | "k < k'" by arith
      then show False
      proof cases
        case 1
        with first have "?s k' \<noteq> ?s k" by blast
        with eq show False by simp
      next
        case 2
        with first' have "?s k \<noteq> ?s k'" by blast
        with eq show False by simp
      qed
    qed
  qed
  have ramp: "get_IDT ops h signal = Inr (row_t (rows h ! 0))"
    if "\<forall>j<?n. ?s j = ?s 0"
  proof -
    have "k = 0"
    proof (rule ccontr)
      assume "k \<noteq> 0"
      then have "0 < k" by simp
      with first have "?s 0 \<noteq> ?s k" by blast
      moreover from that k have "?s k = ?s 0" by blast
      ultimately show False by simp
    qed
    with res show ?thesis by simp
  qed
  have "\<exists>k<?n. get_IDT ops h signal = Inr (row_t (rows h ! k))
     \<and> fl_gt (?s k) (Fin 0)
     \<and> (\<forall>j<?n. \<not> fl_gt (?s j) (?s k))
     \<and> (\<forall>j<k. ?s j \<noteq> ?s k)
     \<and> (\<forall>k'<?n. fl_gt (?s k') (Fin 0) \<and> (\<forall>j<?n. \<not> fl_gt (?s j) (?s k'))
           \<and> (\<forall>j<k'. ?s j \<noteq> ?s k') \<longrightarrow> k' = k)"
    using k res pos mx first only by (intro exI [of _ k]) blast
  with ramp show ?thesis by blast
qed

theorem get_IDT_max_slope_witness:
  "get_IDT exact_ops \<lparr>species_names = [],
       rows = [\<lparr>row_t = 1, row_T = 300, row_P = 0, row_Y = \<lambda>_. 0\<rparr>,
               \<lparr>row_t = 2, row_T = 310, row_P = 0, row_Y = \<lambda>_. 0\<rparr>,
               \<lparr>row_t = 3, row_T = 320, row_P = 0, row_Y = \<lambda>_. 0\<rparr>]\<rparr> ''T'' = Inr 1"
proof -
  let ?h = "\<lparr>species_names = [],
       rows = [\<lparr>row_t = 1, row_T = 300, row_P = 0, row_Y = \<lambda>_. 0\<rparr>,
               \<lparr>row_t = 2, row_T = 310, row_P = 0, row_Y = \<lambda>_. 0\<rparr>,
               \<lparr>row_t = 3, row_T = 320, row_P = 0, row_Y = \<lambda>_. 0\<rparr>]\<rparr>"
  have sig: "upper ''T'' \<in> {''T'', ''P''}" by (simp add: upper_T)
  have s0: "slope_at exact_ops ?h ''T'' 0 = Fin 10"
    by (simp add: temp_scope_def signal_col_def upper_T T_col_def t_col_def fdiv_def exact_ops_def)
  have s1: "slope_at exact_ops ?h ''T'' 1 = Fin 10"
    by (simp add: temp_scope_def signal_col_def upper_T T_col_def t_col_def fdiv_def exact_ops_def)
  have pos: "\<exists>i<length (rows ?h) - 1. fl_gt (slope_at exact_ops ?h ''T'' i) (Fin 0)"
    using s0 by (intro exI [of _ 0]) simp
  have len: "length (rows ?h) - 1 = Suc (Suc 0)" by simp
  have flat: "\<forall>j<length (rows ?h) - 1. slope_at exact_ops ?h ''T'' j = slope_at exact_ops ?h ''T'' 0"
    unfolding len using s0 s1 by (simp add: less_Suc_eq)
  from get_IDT_max_slope [OF sig pos]
  have "(\<forall>j<length (rows ?h) - 1. slope_at exact_ops ?h ''T'' j = slope_at exact_ops ?h ''T'' 0)
        \<longrightarrow> get_IDT exact_ops ?h ''T'' = Inr (row_t (rows ?h ! 0))"
    by (rule conjunct2)
  with flat have "get_IDT exact_ops ?h ''T'' = Inr (row_t (rows ?h ! 0))" by (rule rev_mp)
  then show ?thesis by simp
qed

theorem get_IDT_max_slope_counterexample:
  "get_IDT exact_ops \<lparr>species_names = [],
       rows = [\<lparr>row_t = 1, row_T = 5, row_P = 0, row_Y = \<lambda>_. 0\<rparr>,
               \<lparr>row_t = 2, row_T = 3, row_P = 0, row_Y = \<lambda>_. 0\<rparr>]\<rparr> ''T'' = Inr 0
   \<and> get_IDT exact_ops \<lparr>species_names = [],
       rows = [\<lparr>row_t = 1, row_T = 5, row_P = 0, row_Y = \<lambda>_. 0\<rparr>,
               \<lparr>row_t = 2, row_T = 3, row_P = 0, row_Y = \<lambda>_. 0\<rparr>]\<rparr> ''T''
     \<noteq> Inr (row_t (rows \<lparr>species_names = [],
       rows = [\<lparr>row_t = 1, row_T = 5, row_P = 0, row_Y = \<lambda>_. 0\<rparr>,
               \<lparr>row_t = 2, row_T = 3, row_P = 0, row_Y = \<lambda>_. 0\<rparr>]\<rparr> ! 0))"
  by (simp add: get_IDT_def upper_T idt_loop_def t_col_def T_col_def
      idt_step_def temp_scope_def fdiv_def exact_ops_def)

text \<open>
  C4, amended. For a signal that is \<open>T\<close> or \<open>P\<close> up to case and a history of fewer
  than two samples, the loop of \<open>get_IDT\<close> runs over no index, so no division is
  performed, and \<open>get_IDT\<close> returns the initial value 0; it does not fail.
\<close>

theorem get_IDT_short_history:
  "upper signal \<in> {''T'', ''P''} \<Longrightarrow> length (rows h) < 2 \<Longrightarrow>
   idt_loop ops (signal_col h signal) (t_col h)
     = foldl (idt_step ops (signal_col h signal) (t_col h)) (Fin 0, 0) []
   \<and> get_IDT ops h signal = Inr 0"
proof -
  assume sig: "upper signal \<in> {''T'', ''P''}" and len: "length (rows h) < 2"
  from len have e: "[0..<length (t_col h) - 1] = []" by (simp add: length_t_col)
  have l: "idt_loop ops (signal_col h signal) (t_col h)
           = foldl (idt_step ops (signal_col h signal) (t_col h)) (Fin 0, 0) []"
    unfolding idt_loop_def e ..
  with get_IDT_TP [OF sig, of ops h] show ?thesis by simp
qed

theorem get_IDT_short_history_witness:
  "get_IDT exact_ops \<lparr>species_names = [],
       rows = [\<lparr>row_t = 1, row_T = 5, row_P = 7, row_Y = \<lambda>_. 0\<rparr>]\<rparr> ''p'' = Inr 0"
proof -
  have sig: "upper ''p'' \<in> {''T'', ''P''}" by (simp add: upper_p)
  have len: "length (rows \<lparr>species_names = [],
       rows = [\<lparr>row_t = 1, row_T = 5, row_P = 7, row_Y = \<lambda>_. 0\<rparr>]\<rparr>) < 2" by simp
  from get_IDT_short_history [where ops = exact_ops, OF sig len] show ?thesis by simp
qed

theorem get_IDT_short_history_counterexample:
  "get_IDT exact_ops \<lparr>species_names = [], rows = []\<rparr> ''T'' = Inr 0
   \<and> get_IDT exact_ops \<lparr>species_names = [],
       rows = [\<lparr>row_t = 1, row_T = 5, row_P = 7, row_Y = \<lambda>_. 0\<rparr>]\<rparr> ''T'' = Inr 0"
  by (simp add: get_IDT_def upper_T idt_loop_def t_col_def)

text \<open>
  C6. For a signal that is \<open>T\<close> or \<open>P\<close> up to case and a history none of whose
  forward slopes is greater than zero, \<open>get_IDT\<close> returns the value 0, as a normal
  result and with nothing else to tell it from an ignition at time 0.
\<close>

theorem get_IDT_no_rise:
  "upper signal \<in> {''T'', ''P''} \<Longrightarrow>
   \<forall>i<length (rows h) - 1. \<not> fl_gt (slope_at ops h signal i) (Fin 0) \<Longrightarrow>
   get_IDT ops h signal = Inr 0"
proof -
  assume sig: "upper signal \<in> {''T'', ''P''}"
    and no: "\<forall>i<length (rows h) - 1. \<not> fl_gt (slope_at ops h signal i) (Fin 0)"
  from no have "\<forall>i<length (t_col h) - 1.
      \<not> fl_gt (temp_scope ops (signal_col h signal) (t_col h) i) (Fin 0)"
    by (simp add: length_t_col)
  from idt_loop_none [OF this] get_IDT_TP [OF sig, of ops h] show ?thesis by simp
qed

theorem get_IDT_no_rise_witness:
  "get_IDT exact_ops \<lparr>species_names = [],
       rows = [\<lparr>row_t = 1, row_T = 5, row_P = 9, row_Y = \<lambda>_. 0\<rparr>,
               \<lparr>row_t = 2, row_T = 3, row_P = 9, row_Y = \<lambda>_. 0\<rparr>,
               \<lparr>row_t = 4, row_T = 3, row_P = 9, row_Y = \<lambda>_. 0\<rparr>]\<rparr> ''T'' = Inr 0"
proof -
  let ?h = "\<lparr>species_names = [],
       rows = [\<lparr>row_t = 1, row_T = 5, row_P = 9, row_Y = \<lambda>_. 0\<rparr>,
               \<lparr>row_t = 2, row_T = 3, row_P = 9, row_Y = \<lambda>_. 0\<rparr>,
               \<lparr>row_t = 4, row_T = 3, row_P = 9, row_Y = \<lambda>_. 0\<rparr>]\<rparr>"
  have sig: "upper ''T'' \<in> {''T'', ''P''}" by (simp add: upper_T)
  have s0: "slope_at exact_ops ?h ''T'' 0 = Fin (- 2)"
    by (simp add: temp_scope_def signal_col_def upper_T T_col_def t_col_def fdiv_def exact_ops_def)
  have s1: "slope_at exact_ops ?h ''T'' 1 = Fin 0"
    by (simp add: temp_scope_def signal_col_def upper_T T_col_def t_col_def fdiv_def exact_ops_def)
  have no: "\<forall>i<length (rows ?h) - 1. \<not> fl_gt (slope_at exact_ops ?h ''T'' i) (Fin 0)"
    using s0 s1 by (auto simp add: less_Suc_eq numeral_2_eq_2)
  from get_IDT_no_rise [OF sig no] show ?thesis .
qed

lemma argmax_from_spec:
  "(argmax_from i best j xs = i \<and> (\<forall>x\<in>set xs. x \<le> best))
   \<or> (\<exists>m<length xs. argmax_from i best j xs = j + m \<and> best < xs ! m
        \<and> (\<forall>x\<in>set xs. x \<le> xs ! m) \<and> (\<forall>m'<m. xs ! m' < xs ! m))"
proof (induction xs arbitrary: i best j)
  case Nil
  show ?case by simp
next
  case (Cons x xs)
  show ?case
  proof (cases "best < x")
    case True
    from Cons.IH [of j x "Suc j"] show ?thesis
    proof
      assume a: "argmax_from j x (Suc j) xs = j \<and> (\<forall>y\<in>set xs. y \<le> x)"
      have "0 < length (x # xs) \<and> argmax_from i best j (x # xs) = j + 0
            \<and> best < (x # xs) ! 0 \<and> (\<forall>y\<in>set (x # xs). y \<le> (x # xs) ! 0)
            \<and> (\<forall>m'<0. (x # xs) ! m' < (x # xs) ! 0)"
        using a True by simp
      then show ?thesis by blast
    next
      assume "\<exists>m<length xs. argmax_from j x (Suc j) xs = Suc j + m \<and> x < xs ! m
        \<and> (\<forall>y\<in>set xs. y \<le> xs ! m) \<and> (\<forall>m'<m. xs ! m' < xs ! m)"
      then obtain m where m: "m < length xs"
        and r: "argmax_from j x (Suc j) xs = Suc j + m" and gt: "x < xs ! m"
        and mx: "\<forall>y\<in>set xs. y \<le> xs ! m" and fs: "\<forall>m'<m. xs ! m' < xs ! m" by blast
      have "Suc m < length (x # xs) \<and> argmax_from i best j (x # xs) = j + Suc m
            \<and> best < (x # xs) ! Suc m \<and> (\<forall>y\<in>set (x # xs). y \<le> (x # xs) ! Suc m)
            \<and> (\<forall>m'<Suc m. (x # xs) ! m' < (x # xs) ! Suc m)"
        using m r gt mx fs True by (auto simp add: less_Suc_eq_0_disj)
      then show ?thesis by blast
    qed
  next
    case False
    from Cons.IH [of i best "Suc j"] show ?thesis
    proof
      assume "argmax_from i best (Suc j) xs = i \<and> (\<forall>y\<in>set xs. y \<le> best)"
      then show ?thesis using False by simp
    next
      assume "\<exists>m<length xs. argmax_from i best (Suc j) xs = Suc j + m \<and> best < xs ! m
        \<and> (\<forall>y\<in>set xs. y \<le> xs ! m) \<and> (\<forall>m'<m. xs ! m' < xs ! m)"
      then obtain m where m: "m < length xs"
        and r: "argmax_from i best (Suc j) xs = Suc j + m" and gt: "best < xs ! m"
        and mx: "\<forall>y\<in>set xs. y \<le> xs ! m" and fs: "\<forall>m'<m. xs ! m' < xs ! m" by blast
      have "Suc m < length (x # xs) \<and> argmax_from i best j (x # xs) = j + Suc m
            \<and> best < (x # xs) ! Suc m \<and> (\<forall>y\<in>set (x # xs). y \<le> (x # xs) ! Suc m)
            \<and> (\<forall>m'<Suc m. (x # xs) ! m' < (x # xs) ! Suc m)"
        using m r gt mx fs False by (auto simp add: less_Suc_eq_0_disj)
      then show ?thesis by blast
    qed
  qed
qed

lemma argmax_spec:
  "xs \<noteq> [] \<Longrightarrow>
   \<exists>k<length xs. argmax xs = Inr k \<and> (\<forall>j<length xs. xs ! j \<le> xs ! k)
      \<and> (\<forall>j<k. xs ! j < xs ! k)"
proof -
  assume "xs \<noteq> []"
  then obtain x ys where xs: "xs = x # ys" by (cases xs) auto
  have am: "argmax xs = Inr (argmax_from 0 x 1 ys)" by (simp add: xs argmax_def)
  from argmax_from_spec [of 0 x 1 ys] show ?thesis
  proof
    assume a: "argmax_from 0 x 1 ys = 0 \<and> (\<forall>y\<in>set ys. y \<le> x)"
    then have "\<forall>j<length xs. xs ! j \<le> xs ! 0"
      by (auto simp add: xs nth_Cons split: nat.splits)
    with a am show ?thesis by (intro exI [of _ 0]) (simp add: xs)
  next
    assume "\<exists>m<length ys. argmax_from 0 x 1 ys = 1 + m \<and> x < ys ! m
        \<and> (\<forall>y\<in>set ys. y \<le> ys ! m) \<and> (\<forall>m'<m. ys ! m' < ys ! m)"
    then obtain m where m: "m < length ys"
      and r: "argmax_from 0 x 1 ys = 1 + m" and gt: "x < ys ! m"
      and mx: "\<forall>y\<in>set ys. y \<le> ys ! m" and fs: "\<forall>m'<m. ys ! m' < ys ! m" by blast
    have 1: "\<forall>j<length xs. xs ! j \<le> xs ! Suc m"
      using mx gt by (auto simp add: xs nth_Cons split: nat.splits)
    have 2: "\<forall>j<Suc m. xs ! j < xs ! Suc m"
      using fs gt by (auto simp add: xs nth_Cons split: nat.splits)
    from 1 2 m r am show ?thesis by (intro exI [of _ "Suc m"]) (simp add: xs)
  qed
qed

lemma get_IDT_species_aux:
  "upper signal \<notin> {''T'', ''P''} \<Longrightarrow> signal \<in> set (species_names h) \<Longrightarrow> rows h \<noteq> [] \<Longrightarrow>
   \<exists>k<length (rows h).
       get_IDT ops h signal = Inr (row_t (rows h ! k))
     \<and> (\<forall>j<length (rows h). row_Y (rows h ! j) signal \<le> row_Y (rows h ! k) signal)
     \<and> (\<forall>j<k. row_Y (rows h ! j) signal < row_Y (rows h ! k) signal)"
proof -
  assume sig: "upper signal \<notin> {''T'', ''P''}" and sp: "signal \<in> set (species_names h)"
    and ne: "rows h \<noteq> []"
  let ?ys = "map (\<lambda>r. row_Y r signal) (rows h)"
  from ne have "?ys \<noteq> []" by simp
  from argmax_spec [OF this] obtain k where k: "k < length (rows h)"
    and am: "argmax ?ys = Inr k"
    and mx: "\<forall>j<length (rows h). ?ys ! j \<le> ?ys ! k"
    and fs: "\<forall>j<k. ?ys ! j < ?ys ! k" by auto
  have res: "get_IDT ops h signal = Inr (row_t (rows h ! k))"
    using sig sp am k by (simp add: get_IDT_def Y_col_def t_col_def)
  have mx': "\<forall>j<length (rows h). row_Y (rows h ! j) signal \<le> row_Y (rows h ! k) signal"
    using mx k by simp
  have fs': "\<forall>j<k. row_Y (rows h ! j) signal < row_Y (rows h ! k) signal"
    using fs k by simp
  from k res mx' fs' show ?thesis by blast
qed

text \<open>
  C7. For a signal other than \<open>T\<close> and \<open>P\<close> up to case that names a species of the
  array, and a non-empty history, \<open>get_IDT\<close> returns the time of the sample at an
  index \<open>k\<close> where the mass fraction of that species is largest over the whole history,
  every earlier sample being strictly smaller: the first occurrence of the maximum.
\<close>

theorem get_IDT_species_argmax:
  "upper signal \<notin> {''T'', ''P''} \<Longrightarrow> signal \<in> set (species_names h) \<Longrightarrow> rows h \<noteq> [] \<Longrightarrow>
   \<exists>k<length (rows h).
       get_IDT ops h signal = Inr (row_t (rows h ! k))
     \<and> (\<forall>j<length (rows h). row_Y (rows h ! j) signal \<le> row_Y (rows h ! k) signal)
     \<and> (\<forall>j<k. row_Y (rows h ! j) signal < row_Y (rows h ! k) signal)"
  by (rule get_IDT_species_aux)

theorem get_IDT_species_argmax_witness:
  "get_IDT exact_ops \<lparr>species_names = [''OH''],
       rows = [\<lparr>row_t = 1, row_T = 0, row_P = 0, row_Y = \<lambda>_. 2\<rparr>,
               \<lparr>row_t = 2, row_T = 0, row_P = 0, row_Y = \<lambda>_. 7\<rparr>,
               \<lparr>row_t = 3, row_T = 0, row_P = 0, row_Y = \<lambda>_. 7\<rparr>]\<rparr> ''OH'' = Inr 2"
proof -
  define h where "h = \<lparr>species_names = [''OH''],
       rows = [\<lparr>row_t = 1, row_T = 0, row_P = 0, row_Y = \<lambda>_. 2\<rparr>,
               \<lparr>row_t = 2, row_T = 0, row_P = 0, row_Y = \<lambda>_. 7\<rparr>,
               \<lparr>row_t = 3, row_T = 0, row_P = 0, row_Y = \<lambda>_. (7::real)\<rparr>]\<rparr>"
  have sig: "upper ''OH'' \<notin> {''T'', ''P''}" by (simp add: upper_OH)
  have sp: "''OH'' \<in> set (species_names h)" by (simp add: h_def)
  have ne: "rows h \<noteq> []" by (simp add: h_def)
  have len: "length (rows h) = 3" by (simp add: h_def)
  have y0: "row_Y (rows h ! 0) ''OH'' = 2" by (simp add: h_def)
  have y1: "row_Y (rows h ! 1) ''OH'' = 7" by (simp add: h_def)
  have y2: "row_Y (rows h ! 2) ''OH'' = 7" by (simp add: h_def)
  have t1: "row_t (rows h ! 1) = 2" by (simp add: h_def)
  from get_IDT_species_argmax [OF sig sp ne] obtain k where k: "k < length (rows h)"
    and res: "get_IDT exact_ops h ''OH'' = Inr (row_t (rows h ! k))"
    and mx: "\<forall>j<length (rows h). row_Y (rows h ! j) ''OH'' \<le> row_Y (rows h ! k) ''OH''"
    and fs: "\<forall>j<k. row_Y (rows h ! j) ''OH'' < row_Y (rows h ! k) ''OH''"
    by blast
  from k len have "k = 0 \<or> k = 1 \<or> k = 2" by arith
  then have "k = 1"
  proof (elim disjE)
    assume k0: "k = 0"
    from mx len have "row_Y (rows h ! 1) ''OH'' \<le> row_Y (rows h ! k) ''OH''" by simp
    with k0 y0 y1 show ?thesis by simp
  next
    assume "k = 1" then show ?thesis .
  next
    assume k2: "k = 2"
    with fs have "row_Y (rows h ! 1) ''OH'' < row_Y (rows h ! 2) ''OH''" by simp
    with y1 y2 show ?thesis by simp
  qed
  with res t1 have "get_IDT exact_ops h ''OH'' = Inr 2" by simp
  then show ?thesis unfolding h_def .
qed

lemma idt_loop_result:
  "snd (idt_loop ops y t) = 0 \<or> (\<exists>k<length t - 1. snd (idt_loop ops y t) = t ! k)"
proof (cases "\<exists>i<length t - 1. fl_gt (temp_scope ops y t i) (Fin 0)")
  case True
  from idt_loop_some [OF True] show ?thesis by auto
next
  case False
  then have "\<forall>i<length t - 1. \<not> fl_gt (temp_scope ops y t i) (Fin 0)" by blast
  from idt_loop_none [OF this] show ?thesis by simp
qed

text \<open>
  C9. When every sample time of the history is non-negative, every value that
  \<open>get_IDT\<close> returns is non-negative, whatever the signal.
\<close>

theorem get_IDT_nonneg:
  "\<forall>r\<in>set (rows h). 0 \<le> row_t r \<Longrightarrow> get_IDT ops h signal = Inr x \<Longrightarrow> 0 \<le> x"
proof -
  assume nn: "\<forall>r\<in>set (rows h). 0 \<le> row_t r" and res: "get_IDT ops h signal = Inr x"
  have tk: "0 \<le> t_col h ! k" if "k < length (rows h)" for k
    using nn that by (simp add: t_col_def)
  show ?thesis
  proof (cases "upper signal \<in> {''T'', ''P''}")
    case True
    from get_IDT_TP [OF True, of ops h] res
    have x: "x = snd (idt_loop ops (signal_col h signal) (t_col h))" by simp
    from idt_loop_result [of ops "signal_col h signal" "t_col h"] show ?thesis
    proof
      assume "snd (idt_loop ops (signal_col h signal) (t_col h)) = 0"
      with x show ?thesis by simp
    next
      assume "\<exists>k<length (t_col h) - 1. snd (idt_loop ops (signal_col h signal) (t_col h)) = t_col h ! k"
      then obtain k where k: "k < length (rows h) - 1" and xk: "x = t_col h ! k"
        using x by (auto simp add: length_t_col)
      from k have "k < length (rows h)" by arith
      from tk [OF this] xk show ?thesis by simp
    qed
  next
    case False
    with res have sp: "signal \<in> set (species_names h)"
      by (auto simp add: get_IDT_def Y_col_def split: if_splits)
    have ne: "rows h \<noteq> []"
      using res False sp by (auto simp add: get_IDT_def Y_col_def argmax_def)
    from get_IDT_species_aux [OF False sp ne] obtain k where k: "k < length (rows h)"
      and r: "get_IDT ops h signal = Inr (row_t (rows h ! k))" by blast
    from r res have "x = t_col h ! k" using k by (simp add: t_col_nth)
    with tk [OF k] show ?thesis by simp
  qed
qed

theorem get_IDT_nonneg_witness:
  "get_IDT exact_ops \<lparr>species_names = [],
       rows = [\<lparr>row_t = 1, row_T = 5, row_P = 0, row_Y = \<lambda>_. 0\<rparr>,
               \<lparr>row_t = 2, row_T = 9, row_P = 0, row_Y = \<lambda>_. 0\<rparr>]\<rparr> ''T'' = Inr 1
   \<and> (0::real) \<le> 1"
proof -
  define h where "h = \<lparr>species_names = [],
       rows = [\<lparr>row_t = 1, row_T = 5, row_P = 0, row_Y = \<lambda>_. 0\<rparr>,
               \<lparr>row_t = 2, row_T = 9, row_P = 0, row_Y = \<lambda>_. (0::real)\<rparr>]\<rparr>"
  have nn: "\<forall>r\<in>set (rows h). 0 \<le> row_t r" by (simp add: h_def)
  have res: "get_IDT exact_ops h ''T'' = Inr 1"
    by (simp add: h_def get_IDT_def upper_T idt_loop_def t_col_def T_col_def
        idt_step_def temp_scope_def fdiv_def exact_ops_def)
  from get_IDT_nonneg [OF nn res] res show ?thesis unfolding h_def by simp
qed

section \<open>Properties of the wall velocity\<close>

lemma length_V_t0: "length V_t0 = 46"
  by (simp add: V_t0_def)

lemma length_V_t1: "length V_t1 = 46"
  by (simp add: V_t1_def)

lemma V_t0_strict: "sorted_wrt (<) V_t0"
  by (simp add: V_t0_def)

lemma V_t0_less: "i < j \<Longrightarrow> j < 46 \<Longrightarrow> V_t0 ! i < V_t0 ! j"
  using sorted_wrt_nth_less [OF V_t0_strict, of i j] by (simp add: length_V_t0)

lemma V_t0_le: "i \<le> j \<Longrightarrow> j < 46 \<Longrightarrow> V_t0 ! i \<le> V_t0 ! j"
  using V_t0_less [of i j] by (cases "i = j") auto

lemma V_t0_first: "V_t0 ! 0 = 0"
  by (simp add: V_t0_def)

lemma v_inside:
  assumes i: "i < 45" and lo: "V_t0 ! i \<le> t" and hi: "t < V_t0 ! (i + 1)"
  shows "v t = v_deriv i"
proof -
  let ?P = "\<lambda>i. V_t0 ! i \<le> t \<and> t < V_t0 ! (i + 1)"
  have before: "\<not> ?P j" if "j < i" for j
  proof -
    from that i have "V_t0 ! (j + 1) \<le> V_t0 ! i" by (intro V_t0_le) auto
    with lo show ?thesis by simp
  qed
  have "find ?P [0..<45] = Some i"
    unfolding find_Some_iff
    using i lo hi before by (intro exI [of _ i]) simp
  then show ?thesis by (simp add: v_def length_V_t0)
qed

lemma v_search_fails:
  assumes "t < V_t0 ! 0 \<or> V_t0 ! 45 \<le> t"
  shows "find (\<lambda>i. V_t0 ! i \<le> t \<and> t < V_t0 ! (i + 1)) [0..<length V_t0 - 1] = None"
proof -
  have "\<not> (V_t0 ! i \<le> t \<and> t < V_t0 ! (i + 1))" if "i < 45" for i
  proof -
    from that have a: "V_t0 ! 0 \<le> V_t0 ! i" by (intro V_t0_le) auto
    from that have b: "V_t0 ! (i + 1) \<le> V_t0 ! 45" by (intro V_t0_le) auto
    from assms a b show ?thesis by auto
  qed
  then show ?thesis by (simp add: find_None_iff length_V_t0)
qed

lemma v_outside: "t < V_t0 ! 0 \<or> V_t0 ! 45 \<le> t \<Longrightarrow> v t = v_last"
  using v_search_fails [of t] by (simp add: v_def)

lemma v_deriv_Fin:
  "i < 45 \<Longrightarrow> v_deriv i = Fin ((V_t1 ! (i + 1) - V_t1 ! i) / (V_t0 ! (i + 1) - V_t0 ! i))"
  using V_t0_less [of i "i + 1"] by (simp add: v_deriv_def fdiv_def)

lemma v_last_deriv: "v_last = v_deriv 44"
  by (simp add: v_last_def v_deriv_def length_V_t0 length_V_t1)

lemma v_last_value: "v_last = Fin (- 20.304065)"
  by (simp add: v_last_def fdiv_def V_t0_def V_t1_def)

lemma v_deriv_0_value: "v_deriv 0 = Fin (- 47.384565)"
  by (simp add: v_deriv_def fdiv_def V_t0_def V_t1_def)

lemma v_finite: "\<exists>d. v t = Fin d"
proof (cases "find (\<lambda>i. V_t0 ! i \<le> t \<and> t < V_t0 ! (i + 1)) [0..<length V_t0 - 1]")
  case None
  then have "v t = v_last" by (simp add: v_def)
  then have "v t = Fin (- 20.304065)" by (simp only: v_last_value)
  then show ?thesis by (rule exI)
next
  case (Some i)
  then have "i < 45" by (auto simp add: find_Some_iff length_V_t0)
  from v_deriv_Fin [OF this] Some show ?thesis by (simp add: v_def)
qed

text \<open>
  C2. At every breakpoint \<open>t_i\<close> of the table other than the last, \<open>v\<close> returns the
  difference quotient \<open>(V_{i+1} - V_i) / (t_{i+1} - t_i)\<close> of the interval that starts
  there, and it returns that same value at every query time \<open>t\<close> with
  \<open>t_i \<le> t < t_{i+1}\<close>: the interval is closed on the left and open on the right, and
  the velocity is constant on it.
\<close>

theorem v_at_breakpoint:
  "i < length V_t0 - 1 \<Longrightarrow>
   v (V_t0 ! i) = Fin ((V_t1 ! (i + 1) - V_t1 ! i) / (V_t0 ! (i + 1) - V_t0 ! i))
   \<and> (\<forall>t. V_t0 ! i \<le> t \<and> t < V_t0 ! (i + 1) \<longrightarrow> v t = v (V_t0 ! i))"
proof -
  assume "i < length V_t0 - 1"
  then have i: "i < 45" by (simp add: length_V_t0)
  from i have lt: "V_t0 ! i < V_t0 ! (i + 1)" by (intro V_t0_less) auto
  have at: "v (V_t0 ! i) = v_deriv i" using i lt by (intro v_inside) auto
  have "v t = v (V_t0 ! i)" if "V_t0 ! i \<le> t \<and> t < V_t0 ! (i + 1)" for t
    using v_inside [OF i, of t] that at by simp
  with at v_deriv_Fin [OF i] show ?thesis by simp
qed

theorem v_at_breakpoint_witness:
  "v 0.0004 = Fin (- 45.07346) \<and> v 0.0005 = v 0.0004"
proof -
  have i: "2 < length V_t0 - 1" by (simp add: length_V_t0)
  have t2: "V_t0 ! 2 = 0.0004" by (simp add: V_t0_def)
  have t3: "V_t0 ! (2 + 1) = 0.0006" by (simp add: V_t0_def)
  have d: "(V_t1 ! (2 + 1) - V_t1 ! 2) / (V_t0 ! (2 + 1) - V_t0 ! 2) = - 45.07346"
    by (simp add: V_t0_def V_t1_def)
  from v_at_breakpoint [OF i]
  have a: "v (V_t0 ! 2) = Fin ((V_t1 ! (2 + 1) - V_t1 ! 2) / (V_t0 ! (2 + 1) - V_t0 ! 2))"
    and b: "\<forall>t. V_t0 ! 2 \<le> t \<and> t < V_t0 ! (2 + 1) \<longrightarrow> v t = v (V_t0 ! 2)"
    by blast+
  from b have "V_t0 ! 2 \<le> 0.0005 \<and> 0.0005 < V_t0 ! (2 + 1) \<longrightarrow> v 0.0005 = v (V_t0 ! 2)" ..
  then have c: "v 0.0005 = v (V_t0 ! 2)" unfolding t2 t3 by simp
  from a have a': "v (V_t0 ! 2) = Fin (- 45.07346)" by (simp only: d)
  from a' c show ?thesis by (simp only: t2)
qed

text \<open>
  C3. For every query time at or beyond the last breakpoint, \<open>v\<close> returns a finite
  value, the difference quotient of the last interval; it is the value \<open>v\<close> returns at
  every query time inside the last interval, and it is not zero.
\<close>

theorem v_beyond_last:
  "V_t0 ! (length V_t0 - 1) \<le> t \<Longrightarrow>
   v t = Fin ((V_t1 ! (length V_t1 - 1) - V_t1 ! (length V_t1 - 2))
              / (V_t0 ! (length V_t0 - 1) - V_t0 ! (length V_t0 - 2)))
   \<and> (\<forall>t'. V_t0 ! (length V_t0 - 2) \<le> t' \<and> t' < V_t0 ! (length V_t0 - 1) \<longrightarrow> v t = v t')
   \<and> v t \<noteq> Fin 0"
proof -
  assume "V_t0 ! (length V_t0 - 1) \<le> t"
  then have t: "V_t0 ! 45 \<le> t" by (simp add: length_V_t0)
  then have vt: "v t = v_last" by (intro v_outside) simp
  have 1: "v t = Fin ((V_t1 ! (length V_t1 - 1) - V_t1 ! (length V_t1 - 2))
              / (V_t0 ! (length V_t0 - 1) - V_t0 ! (length V_t0 - 2)))"
    using vt v_last_deriv v_deriv_Fin [of 44] by (simp add: length_V_t0 length_V_t1)
  have 2: "v t = v t'" if "V_t0 ! (length V_t0 - 2) \<le> t' \<and> t' < V_t0 ! (length V_t0 - 1)" for t'
  proof -
    from that have "V_t0 ! 44 \<le> t'" and "t' < V_t0 ! (44 + 1)" by (simp_all add: length_V_t0)
    then have "v t' = v_deriv 44" by (intro v_inside) auto
    with vt v_last_deriv show ?thesis by simp
  qed
  from vt have "v t = Fin (- 20.304065)" by (simp only: v_last_value)
  then have 3: "v t \<noteq> Fin 0" by simp
  from 1 2 3 show ?thesis by blast
qed

theorem v_beyond_last_witness:
  "v 1 = Fin (- 20.304065) \<and> v 1 = v 0.0089"
proof -
  have l: "V_t0 ! (length V_t0 - 1) \<le> 1" by (simp add: V_t0_def)
  have t44: "V_t0 ! (length V_t0 - 2) = 0.0088" by (simp add: V_t0_def)
  have t45: "V_t0 ! (length V_t0 - 1) = 0.009" by (simp add: V_t0_def)
  have d: "(V_t1 ! (length V_t1 - 1) - V_t1 ! (length V_t1 - 2))
              / (V_t0 ! (length V_t0 - 1) - V_t0 ! (length V_t0 - 2)) = - 20.304065"
    by (simp add: V_t0_def V_t1_def)
  from v_beyond_last [OF l]
  have a: "v 1 = Fin ((V_t1 ! (length V_t1 - 1) - V_t1 ! (length V_t1 - 2))
              / (V_t0 ! (length V_t0 - 1) - V_t0 ! (length V_t0 - 2)))"
    and b: "\<forall>t'. V_t0 ! (length V_t0 - 2) \<le> t' \<and> t' < V_t0 ! (length V_t0 - 1) \<longrightarrow> v 1 = v t'"
    by blast+
  from b have "V_t0 ! (length V_t0 - 2) \<le> 0.0089 \<and> 0.0089 < V_t0 ! (length V_t0 - 1)
     \<longrightarrow> v 1 = v 0.0089" ..
  then have c: "v 1 = v 0.0089" unfolding t44 t45 by simp
  from a have a': "v 1 = Fin (- 20.304065)" by (simp only: d)
  from a' c show ?thesis by (rule conjI)
qed

text \<open>
  C10. \<open>v\<close> returns a finite value at every real query time. For a query time below
  the first breakpoint, \<open>t < 0\<close>, the search matches no interval and \<open>v\<close> returns the
  value computed after the loop, the difference quotient of the last interval, which is
  also its value at and beyond the last breakpoint and differs from the difference
  quotient of the first interval.
\<close>

theorem v_total:
  "(\<exists>d. v t = Fin d)
   \<and> (t < 0 \<longrightarrow>
        find (\<lambda>i. V_t0 ! i \<le> t \<and> t < V_t0 ! (i + 1)) [0..<length V_t0 - 1] = None
      \<and> v t = v_last
      \<and> v t = v (V_t0 ! (length V_t0 - 1))
      \<and> v t \<noteq> v_deriv 0)"
proof -
  have neg: "find (\<lambda>i. V_t0 ! i \<le> t \<and> t < V_t0 ! (i + 1)) [0..<length V_t0 - 1] = None
      \<and> v t = v_last \<and> v t = v (V_t0 ! (length V_t0 - 1)) \<and> v t \<noteq> v_deriv 0"
    if "t < 0"
  proof -
    from that have o: "t < V_t0 ! 0 \<or> V_t0 ! 45 \<le> t" by (simp add: V_t0_first)
    have e: "v (V_t0 ! (length V_t0 - 1)) = v_last"
      by (intro v_outside) (simp add: length_V_t0)
    have ne: "v_last \<noteq> v_deriv 0"
      by (simp only: v_last_value v_deriv_0_value) simp
    from v_search_fails [OF o] v_outside [OF o] e ne
    show ?thesis by simp
  qed
  with v_finite [of t] show ?thesis by blast
qed

theorem v_total_witness:
  "v (- 1) = Fin (- 20.304065) \<and> v (- 1) \<noteq> v_deriv 0"
proof -
  have n: "(- 1 :: real) < 0" by simp
  from v_total [of "- 1"] n have "v (- 1) = v_last" and "v (- 1) \<noteq> v_deriv 0" by blast+
  then show ?thesis by (simp only: v_last_value) simp
qed

section \<open>Properties of the runners\<close>

text \<open>
  C5. Let \<open>H2\<close> be a species of the gas the caller passes to \<open>run_cal_real\<close>. Then the
  network that \<open>run_cal_real\<close> advances is built from two reactors that both refer to
  the caller's gas object. The second one is built on the alias \<open>gas2 = gas\<close> after the
  assignment to \<open>gas2.X\<close>, so it starts from the composition \<open>{'H2': 1}\<close> whatever the
  caller had set; the first one was built before the assignment and starts from the
  caller's composition. The caller's gas object holds \<open>{'H2': 1}\<close> afterwards, and
  every other gas object is as it was. When \<open>H2\<close> is not a species of the gas, the
  assignment raises and the caller's gas object is unchanged.
\<close>

theorem run_cal_real_alias:
  "(''H2'' \<in> set (gas_species (\<sigma> gas)) \<longrightarrow>
      run_cal_real ops B \<sigma> gas end_time print_step =
        (\<sigma>(gas := (\<sigma> gas)\<lparr>gas_X := [(''H2'', 1)]\<rparr>),
         idt_ms ops (gas_species (\<sigma> gas))
           (advance (net_step B) (\<lambda>n. thermo_state B n 0) end_time print_step
              (ReactorNet B
                 [\<lparr>contents = gas, init_state = \<sigma> gas, volume = 1\<rparr>,
                  \<lparr>contents = gas,
                     init_state = (\<sigma> gas)\<lparr>gas_X := [(''H2'', 1)]\<rparr>, volume = 1\<rparr>]
                 [v])
              0 1 []))
    \<and> gas_X (fst (run_cal_real ops B \<sigma> gas end_time print_step) gas) = [(''H2'', 1)]
    \<and> (\<forall>a. a \<noteq> gas \<longrightarrow> fst (run_cal_real ops B \<sigma> gas end_time print_step) a = \<sigma> a))
   \<and> (''H2'' \<notin> set (gas_species (\<sigma> gas)) \<longrightarrow>
        run_cal_real ops B \<sigma> gas end_time print_step = (\<sigma>, Some (Inl UnknownSpecies)))"
  by (simp add: run_cal_real_def set_X_def Reactor_def Let_def)

theorem run_cal_real_alias_witness:
  "gas_X (fst (run_cal_real exact_ops tick_backend h2_store 0 0.005 20) 0) = [(''H2'', 1)]
   \<and> fst (run_cal_real exact_ops tick_backend h2_store 0 0.005 20) 1 = h2_store 1
   \<and> run_cal_real exact_ops tick_backend n2_store 0 0.005 20
       = (n2_store, Some (Inl UnknownSpecies))"
proof -
  have yes: "''H2'' \<in> set (gas_species (h2_store 0))" by (simp add: h2_store_def)
  have no: "''H2'' \<notin> set (gas_species (n2_store 0))" by (simp add: n2_store_def)
  from run_cal_real_alias [of h2_store 0 exact_ops tick_backend "0.005" 20] yes
  have a: "gas_X (fst (run_cal_real exact_ops tick_backend h2_store 0 0.005 20) 0)
           = [(''H2'', 1)]"
    and b: "\<forall>a. a \<noteq> 0
          \<longrightarrow> fst (run_cal_real exact_ops tick_backend h2_store 0 0.005 20) a = h2_store a"
    by blast+
  from b have b': "fst (run_cal_real exact_ops tick_backend h2_store 0 0.005 20) 1 = h2_store 1"
    by simp
  from run_cal_real_alias [of n2_store 0 exact_ops tick_backend "0.005" 20] no
  have c: "run_cal_real exact_ops tick_backend n2_store 0 0.005 20
           = (n2_store, Some (Inl UnknownSpecies))"
    by blast
  from a b' c show ?thesis by blast
qed

lemma advance_exit:
  assumes ps: "print_step \<noteq> 0"
  shows "end_time \<le> fst (run_steps stp (t, net) d) \<Longrightarrow>
     \<forall>i<d. fst (run_steps stp (t, net) i) < end_time \<Longrightarrow>
     \<forall>i<d. fst (run_steps stp (t, net) i) < fst (run_steps stp (t, net) (Suc i)) \<Longrightarrow>
     sorted_wrt (<) (map row_t hist) \<Longrightarrow> \<forall>x\<in>set hist. row_t x \<le> t \<Longrightarrow>
     \<exists>hist'. advance stp obs end_time print_step net t counter hist
               = Some (Inr (fst (run_steps stp (t, net) d), hist'))
        \<and> sorted_wrt (<) (map row_t hist')
        \<and> (\<forall>x\<in>set hist'. row_t x \<le> fst (run_steps stp (t, net) d))"
proof (induction d arbitrary: t net counter hist)
  case 0
  then have "\<not> t < end_time" by simp
  then have "advance stp obs end_time print_step net t counter hist = Some (Inr (t, hist))"
    by (subst advance.simps) simp
  with 0 show ?case by simp
next
  case (Suc d)
  obtain t' net' where st: "stp net = (t', net')" by (cases "stp net")
  let ?hist = "if counter mod print_step = 0 then hist @ [mk_row (obs net') t'] else hist"
  from Suc.prems(2) have lt: "t < end_time" by auto
  from Suc.prems(3) have "fst (run_steps stp (t, net) 0) < fst (run_steps stp (t, net) (Suc 0))"
    by blast
  then have tt': "t < t'" by (simp add: st)
  have shift: "run_steps stp (t, net) (Suc i) = run_steps stp (t', net') i" for i
    by (simp add: st)
  have 1: "end_time \<le> fst (run_steps stp (t', net') d)"
    using Suc.prems(1) by (simp add: st)
  have 2: "\<forall>i<d. fst (run_steps stp (t', net') i) < end_time"
  proof (intro allI impI)
    fix i assume "i < d"
    then have "Suc i < Suc d" by simp
    with Suc.prems(2) have "fst (run_steps stp (t, net) (Suc i)) < end_time" by blast
    then show "fst (run_steps stp (t', net') i) < end_time" by (simp only: shift)
  qed
  have 3: "\<forall>i<d. fst (run_steps stp (t', net') i) < fst (run_steps stp (t', net') (Suc i))"
  proof (intro allI impI)
    fix i assume "i < d"
    then have "Suc i < Suc d" by simp
    with Suc.prems(3)
    have "fst (run_steps stp (t, net) (Suc i)) < fst (run_steps stp (t, net) (Suc (Suc i)))"
      by blast
    then show "fst (run_steps stp (t', net') i) < fst (run_steps stp (t', net') (Suc i))"
      by (simp only: shift)
  qed
  have 4: "sorted_wrt (<) (map row_t ?hist)"
    using Suc.prems(4,5) tt' by (auto simp add: sorted_wrt_append mk_row_def)
  have 5: "\<forall>x\<in>set ?hist. row_t x \<le> t'"
    using Suc.prems(5) tt' by (auto simp add: mk_row_def)
  from Suc.IH [OF 1 2 3 4 5, of "counter + 1"] obtain hist' where
    a: "advance stp obs end_time print_step net' t' (counter + 1) ?hist
        = Some (Inr (fst (run_steps stp (t', net') d), hist'))"
    and b: "sorted_wrt (<) (map row_t hist')"
    and c: "\<forall>x\<in>set hist'. row_t x \<le> fst (run_steps stp (t', net') d)" by blast
  have "advance stp obs end_time print_step net t counter hist
        = advance stp obs end_time print_step net' t' (counter + 1) ?hist"
    using lt ps by (subst advance.simps) (simp add: st)
  with a b c show ?case by (simp only: shift) blast
qed

lemma advance_zero_step:
  "0 < end_time \<Longrightarrow> advance stp obs end_time 0 net 0 counter hist = Some (Inl ZeroModulus)"
  by (subst advance.simps) (simp split: prod.splits)

lemma advance_no_step:
  "\<not> t < end_time \<Longrightarrow> advance stp obs end_time print_step net t counter hist = Some (Inr (t, hist))"
  by (subst advance.simps) simp

lemma sim_time_mono:
  assumes "\<forall>k. sim_time stp net k < sim_time stp net (Suc k)"
  shows "i \<le> j \<Longrightarrow> sim_time stp net i \<le> sim_time stp net j"
proof (induction j)
  case 0
  then show ?case by simp
next
  case (Suc j)
  show ?case
  proof (cases "i = Suc j")
    case True
    then show ?thesis by simp
  next
    case False
    with Suc.prems have "i \<le> j" by simp
    from Suc.IH [OF this] assms have "sim_time stp net i \<le> sim_time stp net j"
      and "sim_time stp net j < sim_time stp net (Suc j)" by blast+
    then show ?thesis by simp
  qed
qed

text \<open>
  C8. Let the times the solver returns be strictly increasing from the initial time 0
  and unbounded. Then the loop of \<open>run_cal_ideal\<close> and \<open>run_cal_real\<close>, started as both
  runners start it, returns. It leaves by the loop condition with a time \<open>t\<close> at or
  beyond \<open>end_time\<close>, the first such time the solver returned, and with a history whose
  times are increasing and at most \<open>t\<close>; the only other outcome is the error that
  \<open>counter % print_step\<close> raises in the first iteration when \<open>print_step\<close> is zero. The
  simulation time is non-decreasing along the steps.
\<close>

theorem advance_terminates:
  assumes inc: "\<forall>k. sim_time stp net k < sim_time stp net (Suc k)"
    and unb: "\<forall>b. \<exists>k. b \<le> sim_time stp net k"
  shows "(\<exists>r. advance stp obs end_time print_step net 0 1 [] = Some r
          \<and> (case r of
                Inl e \<Rightarrow> print_step = 0 \<and> 0 < end_time
              | Inr (t, hist) \<Rightarrow>
                  end_time \<le> t
                \<and> (\<exists>k. t = sim_time stp net k \<and> (\<forall>j<k. sim_time stp net j < end_time))
                \<and> sorted_wrt (<) (map row_t hist)
                \<and> (\<forall>x\<in>set hist. row_t x \<le> t)))
       \<and> (\<forall>i j. i \<le> j \<longrightarrow> sim_time stp net i \<le> sim_time stp net j)"
proof -
  have mono: "\<forall>i j. i \<le> j \<longrightarrow> sim_time stp net i \<le> sim_time stp net j"
    using sim_time_mono [OF inc] by blast
  have "\<exists>r. advance stp obs end_time print_step net 0 1 [] = Some r
          \<and> (case r of
                Inl e \<Rightarrow> print_step = 0 \<and> 0 < end_time
              | Inr (t, hist) \<Rightarrow>
                  end_time \<le> t
                \<and> (\<exists>k. t = sim_time stp net k \<and> (\<forall>j<k. sim_time stp net j < end_time))
                \<and> sorted_wrt (<) (map row_t hist)
                \<and> (\<forall>x\<in>set hist. row_t x \<le> t))"
  proof (cases "print_step = 0 \<and> 0 < end_time")
    case True
    then have "advance stp obs end_time print_step net 0 1 [] = Some (Inl ZeroModulus)"
      using advance_zero_step [of end_time stp obs net 1 "[]"] by simp
    with True show ?thesis by simp
  next
    case False
    show ?thesis
    proof (cases "0 < end_time")
      case neg: False
      then have "advance stp obs end_time print_step net 0 1 [] = Some (Inr (0, []))"
        by (intro advance_no_step) simp
      moreover have "0 = sim_time stp net 0 \<and> (\<forall>j<0. sim_time stp net j < end_time)"
        by (simp add: sim_time_def)
      ultimately show ?thesis using neg by auto
    next
      case pos: True
      with False have ps: "print_step \<noteq> 0" by simp
      from unb obtain k0 where k0: "end_time \<le> sim_time stp net k0" by blast
      define d where "d = (LEAST k. end_time \<le> sim_time stp net k)"
      have d1: "end_time \<le> sim_time stp net d"
        unfolding d_def using k0 by (rule LeastI)
      have d2: "\<forall>i<d. sim_time stp net i < end_time"
      proof (intro allI impI)
        fix i assume "i < d"
        then have "\<not> end_time \<le> sim_time stp net i"
          unfolding d_def by (rule not_less_Least)
        then show "sim_time stp net i < end_time" by simp
      qed
      have h1: "end_time \<le> fst (run_steps stp (0, net) d)"
        using d1 by (simp add: sim_time_def)
      have h2: "\<forall>i<d. fst (run_steps stp (0, net) i) < end_time"
        using d2 by (simp add: sim_time_def)
      have h3: "\<forall>i<d. fst (run_steps stp (0, net) i) < fst (run_steps stp (0, net) (Suc i))"
        using inc by (simp only: sim_time_def) blast
      have h4: "sorted_wrt (<) (map row_t [])" by simp
      have h5: "\<forall>x\<in>set []. row_t x \<le> (0::real)" by simp
      from advance_exit [OF ps h1 h2 h3 h4 h5, of obs 1] obtain hist' where
        a: "advance stp obs end_time print_step net 0 1 []
            = Some (Inr (sim_time stp net d, hist'))"
        and b: "sorted_wrt (<) (map row_t hist')"
        and c: "\<forall>x\<in>set hist'. row_t x \<le> sim_time stp net d"
        by (auto simp add: sim_time_def)
      from a b c d1 d2 show ?thesis by auto
    qed
  qed
  with mono show ?thesis by blast
qed

lemma count_steps: "run_steps tick (real n, n) k = (real (n + k), n + k)"
proof (induction k arbitrary: n)
  case 0
  show ?case by simp
next
  case (Suc k)
  have "run_steps tick (real n, n) (Suc k) = run_steps tick (real (Suc n), Suc n) k"
    by (simp only: run_steps.simps snd_conv tick_def)
  also have "\<dots> = (real (Suc n + k), Suc n + k)" by (rule Suc.IH)
  finally show ?case by simp
qed

lemma count_time: "sim_time tick 0 k = real k"
  using count_steps [of 0 k] by (simp add: sim_time_def)

theorem advance_terminates_witness:
  "\<exists>hist. advance tick (\<lambda>n. (300, 1, \<lambda>_. 0)) 2.5 1 0 0 1 [] = Some (Inr (3, hist))"
proof -
  have inc: "\<forall>k. sim_time tick 0 k < sim_time tick 0 (Suc k)"
    by (simp add: count_time)
  have unb: "\<forall>b. \<exists>k. b \<le> sim_time tick 0 k"
    by (simp add: count_time real_arch_simple)
  from advance_terminates [OF inc unb, of "\<lambda>n. (300, 1, \<lambda>_. 0)" "2.5" 1]
  obtain r where r: "advance tick (\<lambda>n. (300, 1, \<lambda>_. 0)) 2.5 1 0 0 1 [] = Some r"
    and c: "case r of
              Inl e \<Rightarrow> (1::int) = 0 \<and> (0::real) < 2.5
            | Inr (t, hist) \<Rightarrow>
                2.5 \<le> t
              \<and> (\<exists>k. t = sim_time tick 0 k \<and> (\<forall>j<k. sim_time tick 0 j < 2.5))
              \<and> sorted_wrt (<) (map row_t hist)
              \<and> (\<forall>x\<in>set hist. row_t x \<le> t)"
    by blast
  from c obtain t hist where rr: "r = Inr (t, hist)" and t1: "2.5 \<le> t"
    and k: "\<exists>k. t = sim_time tick 0 k \<and> (\<forall>j<k. sim_time tick 0 j < 2.5)"
    by (cases r) auto
  from k obtain k where tk: "t = real k" and bef: "\<forall>j<k. real j < 2.5"
    by (auto simp add: count_time)
  from t1 tk have "3 \<le> k" by linarith
  moreover have "\<not> 3 < k"
  proof
    assume "3 < k"
    with bef have "real 3 < 2.5" by blast
    then show False by simp
  qed
  ultimately have "k = 3" by simp
  with tk r rr show ?thesis by simp
qed

end
